theory Spec2Isabelle
  imports Main "HOL-Library.Multiset"
begin

section \<open>The syntax tree of the \<^verbatim>\<open>ast\<close> module\<close>

text \<open>
  \<^verbatim>\<open>python_ast_helper.py\<close> works on the tree that \<^verbatim>\<open>ast.parse\<close> returns. The node
  classes the extractor tests for are constructors of their own, with their fields in the
  order of \<^verbatim>\<open>_fields\<close> (Python 3.8 to 3.11); every other node class (\<^verbatim>\<open>Module\<close>,
  \<^verbatim>\<open>ClassDef\<close>, \<^verbatim>\<open>If\<close>, \<^verbatim>\<open>Expr\<close>, \<^verbatim>\<open>Subscript\<close>, \<^verbatim>\<open>keyword\<close>, \<^verbatim>\<open>arg\<close>, ...) is
  \<open>Other\<close> with its child nodes in field order. Fields that hold no node
  (\<^verbatim>\<open>type_comment\<close>, column offsets) are left out.

  The last two fields of a definition are \<^verbatim>\<open>lineno\<close> and \<^verbatim>\<open>end_lineno\<close>; the latter is
  \<open>None\<close> when the node has no such attribute (\<^verbatim>\<open>hasattr\<close> is false, Python before 3.8).
\<close>

datatype node =
    FunctionDef string node "node list" "node list" "node option" int "int option"
  | AsyncFunctionDef string node "node list" "node list" "node option" int "int option"
  | arguments "node list" "node list" "node option" "node list" "node option list"
      "node option" "node list"
  | Lambda node node
  | Call node "node list" "node list"
  | Name string node
  | Attribute node string node
  | Load
  | Store
  | Other "node list"

text \<open>A field that holds a node or \<^verbatim>\<open>None\<close> yields the node or nothing.\<close>

fun field :: "node option \<Rightarrow> node list" where
  "field None = []"
| "field (Some n) = [n]"

text \<open>
  \<^verbatim>\<open>ast.iter_child_nodes\<close>: the fields in order; a node field yields itself, a list field
  yields its items that are nodes (\<^verbatim>\<open>kw_defaults\<close> may hold \<^verbatim>\<open>None\<close>).
\<close>

fun iter_child_nodes :: "node \<Rightarrow> node list" where
  "iter_child_nodes (FunctionDef nm args body decorator_list returns lineno end_lineno) =
     args # body @ decorator_list @ field returns"
| "iter_child_nodes (AsyncFunctionDef nm args body decorator_list returns lineno end_lineno) =
     args # body @ decorator_list @ field returns"
| "iter_child_nodes (arguments posonlyargs args vararg kwonlyargs kw_defaults kwarg defaults) =
     posonlyargs @ args @ field vararg @ kwonlyargs @ concat (map field kw_defaults)
       @ field kwarg @ defaults"
| "iter_child_nodes (Lambda args body) = [args, body]"
| "iter_child_nodes (Call func args keywords) = func # args @ keywords"
| "iter_child_nodes (Name ident ctx) = [ctx]"
| "iter_child_nodes (Attribute v attr ctx) = [v, ctx]"
| "iter_child_nodes Load = []"
| "iter_child_nodes Store = []"
| "iter_child_nodes (Other children) = children"

subsection \<open>A measure for the walks\<close>

definition weight :: "node list \<Rightarrow> nat" where
  "weight ns = sum_list (map (\<lambda>n. 2 * size n + 1) ns)"

lemma weight_simps [simp]:
  "weight [] = 0"
  "weight (n # ns) = 2 * size n + 1 + weight ns"
  "weight (xs @ ys) = weight xs + weight ys"
  by (simp_all add: weight_def)

lemma weight_le_size_list: "weight ns \<le> 2 * size_list size ns"
  by (induction ns) auto

lemma weight_field: "weight (field r) \<le> 2 * size_option size r"
  by (cases r) auto

lemma weight_fields: "weight (concat (map field rs)) \<le> 2 * size_list (size_option size) rs"
proof (induction rs)
  case Nil
  show ?case by simp
next
  case (Cons r rs)
  have "weight (field r) \<le> 2 * size_option size r" by (rule weight_field)
  with Cons show ?case by simp
qed

lemma weight_children: "weight (iter_child_nodes n) < 2 * size n + 1"
proof (cases n)
  case (FunctionDef nm a b d r l e)
  with weight_le_size_list [of b] weight_le_size_list [of d] weight_field [of r]
  show ?thesis by simp
next
  case (AsyncFunctionDef nm a b d r l e)
  with weight_le_size_list [of b] weight_le_size_list [of d] weight_field [of r]
  show ?thesis by simp
next
  case (arguments p a v k kd kw d)
  with weight_le_size_list [of p] weight_le_size_list [of a] weight_le_size_list [of k]
    weight_le_size_list [of d] weight_field [of v] weight_field [of kw] weight_fields [of kd]
  show ?thesis by simp
next
  case (Call f a k)
  with weight_le_size_list [of a] weight_le_size_list [of k] show ?thesis by simp
next
  case (Other c)
  with weight_le_size_list [of c] show ?thesis by simp
qed simp_all

lemma weight_member: "c \<in> set ns \<Longrightarrow> 2 * size c + 1 \<le> weight ns"
  by (induction ns) auto

lemma size_child: "c \<in> set (iter_child_nodes n) \<Longrightarrow> size c < size n"
  using weight_member [of c "iter_child_nodes n"] weight_children [of n] by simp

lemma weight_level: "weight (concat (map iter_child_nodes ns)) \<le> weight ns"
proof (induction ns)
  case Nil
  show ?case by simp
next
  case (Cons n ns)
  with weight_children [of n] show ?case by simp
qed

subsection \<open>\<^verbatim>\<open>ast.walk\<close>\<close>

text \<open>
  The standard library's generator, which both functions of the extractor iterate:
  \<^verbatim>\<open>
  def walk(node):
      todo = deque([node])
      while todo:
          node = todo.popleft()
          todo.extend(iter_child_nodes(node))
          yield node
  \<close>
  \<open>walk_loop\<close> is the loop on the queue \<open>todo\<close>, returning the nodes it yields.
\<close>

function walk_loop :: "node list \<Rightarrow> node list" where
  "walk_loop [] = []"
| "walk_loop (n # todo) = n # walk_loop (todo @ iter_child_nodes n)"
  by pat_completeness auto
termination
proof (relation "measure weight")
  show "wf (measure weight)" by simp
next
  fix n todo
  show "(todo @ iter_child_nodes n, n # todo) \<in> measure weight"
    using weight_children [of n] by simp
qed

definition walk :: "node \<Rightarrow> node list" where
  "walk n = walk_loop [n]"

section \<open>The extractor\<close>

text \<open>
  \<^verbatim>\<open>extract_function_calls\<close>: the body of the loop over \<^verbatim>\<open>ast.walk(node)\<close>, with the
  list \<^verbatim>\<open>calls\<close> passed through.
\<close>

fun append_call :: "string list \<Rightarrow> node \<Rightarrow> string list" where
  "append_call cs (Call (Name ident ctx) args keywords) = cs @ [ident]"
| "append_call cs (Call (Attribute v attr ctx) args keywords) = cs @ [attr]"
| "append_call cs child = cs"

definition extract_function_calls :: "node \<Rightarrow> string list" where
  "extract_function_calls n = foldl append_call [] (walk n)"

record function_record =
  name :: string
  start_line :: int
  end_line :: int
  calls :: "string list"

text \<open>
  The dictionary built for a definition node. \<open>list_set\<close> stands for \<^verbatim>\<open>list(set(calls))\<close>:
  the order in which Python iterates a set of strings depends on the hash seed of the
  process, so it is a parameter of the model.
\<close>

definition make_record ::
  "(string list \<Rightarrow> string list) \<Rightarrow> node \<Rightarrow> string \<Rightarrow> int \<Rightarrow> int option \<Rightarrow> function_record" where
  "make_record list_set n nm lineno end_lineno =
     (let cs = extract_function_calls n in
      \<lparr>name = nm,
       start_line = lineno,
       end_line = (case end_lineno of Some e \<Rightarrow> e | None \<Rightarrow> lineno),
       calls = list_set cs\<rparr>)"

fun append_function ::
  "(string list \<Rightarrow> string list) \<Rightarrow> function_record list \<Rightarrow> node \<Rightarrow> function_record list" where
  "append_function list_set fs (FunctionDef nm args body decorator_list returns lineno end_lineno) =
     fs @ [make_record list_set
             (FunctionDef nm args body decorator_list returns lineno end_lineno)
             nm lineno end_lineno]"
| "append_function list_set fs
     (AsyncFunctionDef nm args body decorator_list returns lineno end_lineno) =
     fs @ [make_record list_set
             (AsyncFunctionDef nm args body decorator_list returns lineno end_lineno)
             nm lineno end_lineno]"
| "append_function list_set fs n = fs"

text \<open>\<^verbatim>\<open>extract_functions\<close> never reads \<^verbatim>\<open>file_path\<close>, so its type is left open.\<close>

definition extract_functions ::
  "(string list \<Rightarrow> string list) \<Rightarrow> node \<Rightarrow> 'p \<Rightarrow> function_record list" where
  "extract_functions list_set tree file_path = foldl (append_function list_set) [] (walk tree)"

text \<open>
  What \<^verbatim>\<open>list(set(calls))\<close> guarantees under any hash seed: the elements of \<^verbatim>\<open>calls\<close>,
  each once.
\<close>

definition set_iteration :: "(string list \<Rightarrow> string list) \<Rightarrow> bool" where
  "set_iteration list_set \<longleftrightarrow> (\<forall>cs. distinct (list_set cs) \<and> set (list_set cs) = set cs)"

section \<open>The command-line entry point\<close>

text \<open>
  The values \<^verbatim>\<open>json.loads\<close> returns. A \<^verbatim>\<open>dict\<close> is the list of its items, looked up with
  \<open>map_of\<close>. Numbers are integers: of a number only its class matters here.
\<close>

datatype json =
    JNull
  | JBool bool
  | JNumber int
  | JString string
  | JArray "json list"
  | JObject "(string \<times> json) list"

text \<open>An exception: its class and what \<^verbatim>\<open>str(e)\<close> returns.\<close>

datatype exn = Exception string string

fun str :: "exn \<Rightarrow> string" where
  "str (Exception cls msg) = msg"

definition quoted :: "string \<Rightarrow> string" where
  "quoted s = [CHR 0x27] @ s @ [CHR 0x27]"

text \<open>
  \<^verbatim>\<open>input_data[key]\<close> for a string key: a \<^verbatim>\<open>dict\<close> without the key raises \<^verbatim>\<open>KeyError\<close>,
  whose string is the \<^verbatim>\<open>repr\<close> of the key; any other value raises \<^verbatim>\<open>TypeError\<close>.
\<close>

fun getitem :: "json \<Rightarrow> string \<Rightarrow> exn + json" where
  "getitem (JObject items) key =
     (case map_of items key of
        Some v \<Rightarrow> Inr v
      | None \<Rightarrow> Inl (Exception ''KeyError'' (quoted key)))"
| "getitem (JArray xs) key =
     Inl (Exception ''TypeError'' ''list indices must be integers or slices, not str'')"
| "getitem (JString s) key =
     Inl (Exception ''TypeError'' (''string indices must be integers, not '' @ quoted ''str''))"
| "getitem (JNumber i) key =
     Inl (Exception ''TypeError'' (quoted ''int'' @ '' object is not subscriptable''))"
| "getitem (JBool b) key =
     Inl (Exception ''TypeError'' (quoted ''bool'' @ '' object is not subscriptable''))"
| "getitem JNull key =
     Inl (Exception ''TypeError'' (quoted ''NoneType'' @ '' object is not subscriptable''))"

text \<open>
  Lines 41 to 44 of \<^verbatim>\<open>main\<close>: parse, then extract. \<open>ast_parse content file_path\<close> stands
  for \<^verbatim>\<open>ast.parse(content, filename=file_path)\<close> on the two values read from the request:
  it returns the tree or raises.
\<close>

definition analyze ::
  "(json \<Rightarrow> json \<Rightarrow> exn + node) \<Rightarrow> (string list \<Rightarrow> string list) \<Rightarrow> string \<Rightarrow> string
     \<Rightarrow> exn + function_record list" where
  "analyze ast_parse list_set file_path content =
     (case ast_parse (JString content) (JString file_path) of
        Inl e \<Rightarrow> Inl e
      | Inr tree \<Rightarrow> Inr (extract_functions list_set tree file_path))"

text \<open>The value that \<^verbatim>\<open>json.dumps(functions)\<close> serialises.\<close>

definition record_json :: "function_record \<Rightarrow> json" where
  "record_json r =
     JObject [(''name'', JString (name r)),
              (''start_line'', JNumber (start_line r)),
              (''end_line'', JNumber (end_line r)),
              (''calls'', JArray (map JString (calls r)))]"

definition functions_json :: "function_record list \<Rightarrow> json" where
  "functions_json fs = JArray (map record_json fs)"

text \<open>
  The body of the \<^verbatim>\<open>try\<close> block of \<^verbatim>\<open>main\<close>, up to the value to print. \<open>json_loads\<close>
  stands for \<^verbatim>\<open>json.loads(sys.stdin.read())\<close>. The two values of the request go to
  \<^verbatim>\<open>ast.parse\<close> as they are, strings or not.
\<close>

definition main_try ::
  "(string \<Rightarrow> exn + json) \<Rightarrow> (json \<Rightarrow> json \<Rightarrow> exn + node) \<Rightarrow> (string list \<Rightarrow> string list)
     \<Rightarrow> string \<Rightarrow> exn + json" where
  "main_try json_loads ast_parse list_set stdin =
     (case json_loads stdin of
        Inl e \<Rightarrow> Inl e
      | Inr input_data \<Rightarrow>
          (case getitem input_data ''file'' of
             Inl e \<Rightarrow> Inl e
           | Inr file_path \<Rightarrow>
               (case getitem input_data ''content'' of
                  Inl e \<Rightarrow> Inl e
                | Inr content \<Rightarrow>
                    (case ast_parse content file_path of
                       Inl e \<Rightarrow> Inl e
                     | Inr tree \<Rightarrow>
                         Inr (functions_json (extract_functions list_set tree file_path))))))"

text \<open>What one run leaves behind: the values printed on each channel and the exit code.\<close>

record outcome =
  stdout :: "json list"
  stderr :: "json list"
  exit_code :: nat

definition main ::
  "(string \<Rightarrow> exn + json) \<Rightarrow> (json \<Rightarrow> json \<Rightarrow> exn + node) \<Rightarrow> (string list \<Rightarrow> string list)
     \<Rightarrow> string \<Rightarrow> outcome" where
  "main json_loads ast_parse list_set stdin =
     (case main_try json_loads ast_parse list_set stdin of
        Inr functions \<Rightarrow> \<lparr>stdout = [functions], stderr = [], exit_code = 0\<rparr>
      | Inl e \<Rightarrow> \<lparr>stdout = [], stderr = [JObject [(''error'', JString (str e))]], exit_code = 1\<rparr>)"

subsection \<open>\<^verbatim>\<open>ast.parse\<close> and the file name\<close>

text \<open>The class name of a value, as the messages of \<^verbatim>\<open>TypeError\<close> print it.\<close>

fun type_name :: "json \<Rightarrow> string" where
  "type_name JNull = ''NoneType''"
| "type_name (JBool b) = ''bool''"
| "type_name (JNumber i) = ''int''"
| "type_name (JString s) = ''str''"
| "type_name (JArray xs) = ''list''"
| "type_name (JObject items) = ''dict''"

text \<open>
  \<^verbatim>\<open>ast.parse(content, filename=file_path)\<close> passes both values to the built-in
  \<^verbatim>\<open>compile\<close>. The file name is converted first: a value that is not a string raises
  \<^verbatim>\<open>TypeError\<close>, a string that holds a NUL character raises \<^verbatim>\<open>ValueError\<close>. Then the source
  must be a string. Only then is the source read: \<open>grammar\<close> stands for the parser proper,
  a function of the source text alone that gives the tree or, from the file name that
  labels it, the exception raised (a syntax error, or the parser running out of stack or
  memory).
\<close>

definition parse_with ::
  "(string \<Rightarrow> (string \<Rightarrow> exn) + node) \<Rightarrow> json \<Rightarrow> json \<Rightarrow> exn + node" where
  "parse_with grammar content file_path =
     (case file_path of
        JString fname \<Rightarrow>
          if CHR 0x00 \<in> set fname
          then Inl (Exception ''ValueError'' ''embedded null character'')
          else (case content of
                  JString src \<Rightarrow>
                    (case grammar src of Inl err \<Rightarrow> Inl (err fname) | Inr tree \<Rightarrow> Inr tree)
                | _ \<Rightarrow>
                    Inl (Exception ''TypeError''
                          ''compile() arg 1 must be a string, bytes or AST object''))
      | _ \<Rightarrow>
          Inl (Exception ''TypeError''
                (''expected str, bytes or os.PathLike object, not '' @ type_name file_path)))"

section \<open>Reference traversals\<close>

text \<open>
  The depth-first, pre-order walk the specification speaks of: a node, then the walks of its
  children from left to right. Its elements are the nodes of the subtree of \<open>n\<close>, so
  \<open>d \<in> set (pre_order n)\<close> reads "\<open>d\<close> lies inside \<open>n\<close>, at any depth, or is \<open>n\<close>".
\<close>

function pre_order :: "node \<Rightarrow> node list" where
  "pre_order n = n # concat (map pre_order (iter_child_nodes n))"
  by pat_completeness auto
termination
proof (relation "measure size")
  show "wf (measure size)" by simp
next
  fix n c
  assume "c \<in> set (iter_child_nodes n)"
  then show "(c, n) \<in> measure size" by (simp add: size_child)
qed

declare pre_order.simps [simp del]

text \<open>
  The breadth-first, level-order walk: the nodes of one depth from left to right, then
  those of the next depth.
\<close>

function levels :: "node list \<Rightarrow> node list list" where
  "levels [] = []"
| "levels (n # ns) = (n # ns) # levels (concat (map iter_child_nodes (n # ns)))"
  by pat_completeness auto
termination
proof (relation "measure weight")
  show "wf (measure weight)" by simp
next
  fix n ns
  show "(concat (map iter_child_nodes (n # ns)), n # ns) \<in> measure weight"
    using weight_children [of n] weight_level [of ns] by simp
qed

definition level_order :: "node \<Rightarrow> node list" where
  "level_order n = concat (levels [n])"

section \<open>Notions the claims use\<close>

text \<open>
  The three attributes \<^verbatim>\<open>extract_functions\<close> reads from a node that passes its
  \<^verbatim>\<open>isinstance\<close> test (\<^verbatim>\<open>name\<close>, \<^verbatim>\<open>lineno\<close>, \<^verbatim>\<open>end_lineno\<close>); \<open>None\<close> for any other node.
\<close>

fun definition_fields :: "node \<Rightarrow> (string \<times> int \<times> int option) option" where
  "definition_fields (FunctionDef nm args body decorator_list returns lineno end_lineno) =
     Some (nm, lineno, end_lineno)"
| "definition_fields (AsyncFunctionDef nm args body decorator_list returns lineno end_lineno) =
     Some (nm, lineno, end_lineno)"
| "definition_fields n = None"

definition is_definition :: "node \<Rightarrow> bool" where
  "is_definition n \<longleftrightarrow> definition_fields n \<noteq> None"

text \<open>
  What the parser guarantees of the positions it sets: a definition does not end on a
  line before the one it starts on.
\<close>

definition span_ordered :: "node \<Rightarrow> bool" where
  "span_ordered n =
     (case definition_fields n of
        Some (nm, lineno, Some end_lineno) \<Rightarrow> lineno \<le> end_lineno
      | _ \<Rightarrow> True)"

definition spans_ordered :: "node \<Rightarrow> bool" where
  "spans_ordered tree = list_all span_ordered (pre_order tree)"

text \<open>Two records that are equal up to the order of \<^verbatim>\<open>calls\<close>.\<close>

definition same_record :: "function_record \<Rightarrow> function_record \<Rightarrow> bool" where
  "same_record r r' \<longleftrightarrow>
     name r = name r' \<and> start_line r = start_line r' \<and> end_line r = end_line r'
       \<and> set (calls r) = set (calls r')"

text \<open>The object printed on the error channel for an exception.\<close>

definition error_json :: "exn \<Rightarrow> json" where
  "error_json e = JObject [(''error'', JString (str e))]"

section \<open>Example trees\<close>

text \<open>The tree of a definition without parameters has this \<^verbatim>\<open>arguments\<close> node.\<close>

definition no_args :: node where
  "no_args = arguments [] [] None [] [] None []"

text \<open>
  The module
  \<^verbatim>\<open>
  def a():
      def b(): pass
  def c(): pass
  \<close>
\<close>

definition nested_then_sibling :: node where
  "nested_then_sibling =
     Other [FunctionDef ''a'' no_args
              [FunctionDef ''b'' no_args [Other []] [] None 2 (Some 2)] [] None 1 (Some 2),
            FunctionDef ''c'' no_args [Other []] [] None 3 (Some 3)]"

text \<open>
  The module
  \<^verbatim>\<open>
  def outer():
      def inner():
          helper()
      x.process()
  \<close>
\<close>

definition inner_def :: node where
  "inner_def =
     FunctionDef ''inner'' no_args [Other [Call (Name ''helper'' Load) [] []]] [] None 2 (Some 3)"

definition outer_def :: node where
  "outer_def =
     FunctionDef ''outer'' no_args
       [inner_def, Other [Call (Attribute (Name ''x'' Load) ''process'' Load) [] []]]
       [] None 1 (Some 4)"

definition outer_module :: node where
  "outer_module = Other [outer_def]"

text \<open>
  The module
  \<^verbatim>\<open>
  class K:
      if flag:
          async def m(self): pass
  \<close>
  with the class and the conditional as \<open>Other\<close> nodes.
\<close>

definition method_def :: node where
  "method_def =
     AsyncFunctionDef ''m'' (arguments [] [Other []] None [] [] None []) [Other []] [] None 3 (Some 3)"

definition class_module :: node where
  "class_module = Other [Other [Other [Name ''flag'' Load, method_def]]]"

text \<open>
  The module
  \<^verbatim>\<open>
  f = lambda x: g(x)
  def h(): return lambda: 0
  \<close>
\<close>

definition lambda_assign :: node where
  "lambda_assign =
     Other [Name ''f'' Store,
            Lambda (arguments [] [Other []] None [] [] None [])
              (Call (Name ''g'' Load) [Name ''x'' Load] [])]"

definition lambda_module :: node where
  "lambda_module =
     Other [lambda_assign,
            FunctionDef ''h'' no_args [Other [Lambda no_args (Other [])]] [] None 2 (Some 2)]"

text \<open>The first line of that module alone.\<close>

definition lambda_only :: node where
  "lambda_only = Other [lambda_assign]"

text \<open>
  The definition \<^verbatim>\<open>def f(): callee()\<close> on one line, for any expression \<open>callee\<close>.
\<close>

definition def_calling :: "node \<Rightarrow> node" where
  "def_calling callee = FunctionDef ''f'' no_args [Other [Call callee [] []]] [] None 1 (Some 1)"

text \<open>
  The module
  \<^verbatim>\<open>
  @deco
  def f(): pass
  \<close>
  whose decorator is a name, not a call: \<^verbatim>\<open>decorator_list\<close> holds the \<^verbatim>\<open>Name\<close> node itself.
\<close>

definition decorated_module :: node where
  "decorated_module =
     Other [FunctionDef ''f'' no_args [Other []] [Name ''deco'' Load] None 2 (Some 2)]"

text \<open>
  The definition
  \<^verbatim>\<open>
  @deco(1)
  def f(x=dflt()): pass
  \<close>
  whose decorator and default value are call expressions.
\<close>

definition decorated_def :: node where
  "decorated_def =
     FunctionDef ''f''
       (arguments [] [Other []] None [] [] None [Call (Name ''dflt'' Load) [] []])
       [Other []]
       [Call (Name ''deco'' Load) [Other []] []]
       None 2 (Some 2)"

text \<open>
  A request as \<^verbatim>\<open>json.loads\<close> returns it, and a stand-in for \<^verbatim>\<open>ast.parse\<close> that knows one
  source text, \<^verbatim>\<open>def f(): g()\<close>, and rejects every other one.
\<close>

definition request :: "string \<Rightarrow> string \<Rightarrow> json" where
  "request file_path content = JObject [(''file'', JString file_path), (''content'', JString content)]"

definition sample_parse :: "json \<Rightarrow> json \<Rightarrow> exn + node" where
  "sample_parse content file_path =
     (if content = JString ''def f(): g()'' then Inr (Other [def_calling (Name ''g'' Load)])
      else Inl (Exception ''SyntaxError'' ''invalid syntax''))"

text \<open>
  A stand-in for the parser proper that knows the same source text, and a file name with a
  NUL character in it.
\<close>

definition sample_grammar :: "string \<Rightarrow> (string \<Rightarrow> exn) + node" where
  "sample_grammar src =
     (if src = ''def f(): g()'' then Inr (Other [def_calling (Name ''g'' Load)])
      else Inl (\<lambda>fname. Exception ''SyntaxError'' (''invalid syntax ('' @ fname @ '', line 1)'')))"

definition null_path :: string where
  "null_path = ''a'' @ [CHR 0x00] @ ''b.py''"

section \<open>Properties of the walks\<close>

lemma walk_loop_append:
  "walk_loop (xs @ ys) = xs @ walk_loop (ys @ concat (map iter_child_nodes xs))"
proof (induction xs arbitrary: ys)
  case Nil
  show ?case by simp
next
  case (Cons x xs)
  have "walk_loop ((x # xs) @ ys) = x # walk_loop (xs @ (ys @ iter_child_nodes x))"
    by simp
  also have "\<dots> = x # xs @ walk_loop ((ys @ iter_child_nodes x) @ concat (map iter_child_nodes xs))"
    by (simp only: Cons.IH)
  finally show ?case by simp
qed

lemma walk_loop_levels: "walk_loop ns = concat (levels ns)"
proof (induction ns rule: levels.induct)
  case 1
  show ?case by simp
next
  case (2 n ns)
  have "walk_loop (n # ns) = (n # ns) @ walk_loop (concat (map iter_child_nodes (n # ns)))"
    using walk_loop_append [of "n # ns" "[]"] by simp
  with 2 show ?case by simp
qed

lemma walk_level_order: "walk n = level_order n"
  by (simp add: walk_def level_order_def walk_loop_levels)

lemma mset_walk_loop: "mset (walk_loop ns) = mset (concat (map pre_order ns))"
proof (induction ns rule: walk_loop.induct)
  case 1
  show ?case by simp
next
  case (2 n todo)
  have unfold: "n # concat (map pre_order (iter_child_nodes n)) = pre_order n"
    by (rule pre_order.simps [symmetric])
  have "mset (walk_loop (n # todo))
      = add_mset n (mset (concat (map pre_order (todo @ iter_child_nodes n))))"
    using 2 by simp
  also have "\<dots> = mset (n # concat (map pre_order (iter_child_nodes n)))
      + mset (concat (map pre_order todo))"
    by simp
  also have "\<dots> = mset (pre_order n) + mset (concat (map pre_order todo))"
    by (simp only: unfold)
  finally show ?case by simp
qed

lemma mset_walk: "mset (walk n) = mset (pre_order n)"
  using mset_walk_loop [of "[n]"] by (simp add: walk_def del: walk_loop.simps)

lemma set_walk: "set (walk n) = set (pre_order n)"
  using mset_walk [of n] by (metis set_mset_mset)

lemma pre_order_self: "n \<in> set (pre_order n)"
  by (simp add: pre_order.simps [of n])

lemma pre_order_child:
  "c \<in> set (iter_child_nodes n) \<Longrightarrow> d \<in> set (pre_order c) \<Longrightarrow> d \<in> set (pre_order n)"
  by (auto simp add: pre_order.simps [of n])

lemma pre_order_trans:
  "c \<in> set (pre_order n) \<Longrightarrow> d \<in> set (pre_order c) \<Longrightarrow> d \<in> set (pre_order n)"
proof (induction n rule: pre_order.induct)
  case (1 n)
  from "1.prems"(1) have "c = n \<or> (\<exists>k \<in> set (iter_child_nodes n). c \<in> set (pre_order k))"
    by (auto simp add: pre_order.simps [of n])
  then show ?case
  proof
    assume "c = n"
    with "1.prems"(2) show ?thesis by simp
  next
    assume "\<exists>k \<in> set (iter_child_nodes n). c \<in> set (pre_order k)"
    then obtain k where k: "k \<in> set (iter_child_nodes n)" "c \<in> set (pre_order k)" by blast
    with "1.IH" "1.prems"(2) have "d \<in> set (pre_order k)" by blast
    with k(1) show ?thesis by (rule pre_order_child)
  qed
qed

section \<open>Properties of the two loops\<close>

lemma append_call_acc: "append_call cs n = cs @ append_call [] n"
  by (induction cs n rule: append_call.induct) simp_all

lemma foldl_append_call: "foldl append_call cs ns = cs @ concat (map (append_call []) ns)"
proof (induction ns arbitrary: cs)
  case Nil
  show ?case by simp
next
  case (Cons n ns)
  have "foldl append_call cs (n # ns) = foldl append_call (append_call cs n) ns" by simp
  also have "\<dots> = append_call cs n @ concat (map (append_call []) ns)" by (rule Cons.IH)
  also have "\<dots> = (cs @ append_call [] n) @ concat (map (append_call []) ns)"
    using append_call_acc [of cs n] by simp
  finally show ?case by simp
qed

lemma extract_function_calls_concat:
  "extract_function_calls n = concat (map (append_call []) (walk n))"
  by (simp add: extract_function_calls_def foldl_append_call)

lemma set_extract_function_calls:
  "set (extract_function_calls n) = (\<Union>c \<in> set (pre_order n). set (append_call [] c))"
  by (simp add: extract_function_calls_concat set_walk)

lemma append_function_acc: "append_function ls fs n = fs @ append_function ls [] n"
  by (induction ls fs n rule: append_function.induct) simp_all

lemma foldl_append_function:
  "foldl (append_function ls) fs ns = fs @ concat (map (append_function ls []) ns)"
proof (induction ns arbitrary: fs)
  case Nil
  show ?case by simp
next
  case (Cons n ns)
  have "foldl (append_function ls) fs (n # ns)
      = foldl (append_function ls) (append_function ls fs n) ns" by simp
  also have "\<dots> = append_function ls fs n @ concat (map (append_function ls []) ns)"
    by (rule Cons.IH)
  also have "\<dots> = (fs @ append_function ls [] n) @ concat (map (append_function ls []) ns)"
    using append_function_acc [of ls fs n] by simp
  finally show ?case by simp
qed

lemma extract_functions_concat:
  "extract_functions ls t fp = concat (map (append_function ls []) (walk t))"
  by (simp add: extract_functions_def foldl_append_function)

lemma mset_concat_map:
  assumes "mset xs = mset ys"
  shows "mset (concat (map f xs)) = mset (concat (map f ys))"
proof -
  have "mset (concat (map f zs)) = (\<Sum>z \<in># mset zs. mset (f z))" for zs
    by (induction zs) simp_all
  with assms show ?thesis by simp
qed

lemma append_function_fields:
  "append_function ls [] d =
     (case definition_fields d of
        Some (nm, l, e) \<Rightarrow> [make_record ls d nm l e]
      | None \<Rightarrow> [])"
  by (cases d) simp_all

lemma set_extract_functions:
  "set (extract_functions ls t fp) = (\<Union>d \<in> set (pre_order t). set (append_function ls [] d))"
  by (simp add: extract_functions_concat set_walk)

lemma length_extract_functions:
  "length (extract_functions ls t fp) = length (filter is_definition (pre_order t))"
proof -
  have count: "length (concat (map (append_function ls []) ns)) = size (filter_mset is_definition (mset ns))" for ns
    by (induction ns) (auto simp: append_function_fields is_definition_def split: option.splits)
  have "length (extract_functions ls t fp) = size (filter_mset is_definition (mset (walk t)))"
    by (simp only: extract_functions_concat count)
  also have "\<dots> = size (filter_mset is_definition (mset (pre_order t)))"
    by (simp only: mset_walk)
  also have "\<dots> = length (filter is_definition (pre_order t))"
    by (simp only: mset_filter [symmetric] size_mset)
  finally show ?thesis .
qed

lemma walk_unfold: "walk n = n # walk_loop (iter_child_nodes n)"
  by (simp add: walk_def)

lemma calls_make_record:
  "set_iteration ls \<Longrightarrow> set (calls (make_record ls d nm l e)) = set (extract_function_calls d)"
  by (simp add: make_record_def set_iteration_def)

lemma call_in_subtree:
  assumes "c \<in> set (pre_order d)"
    and "c = Call (Name f ctx) as ks \<or> c = Call (Attribute v f ctx) as ks"
  shows "f \<in> set (extract_function_calls d)"
proof -
  from assms(2) have "f \<in> set (append_call [] c)" by auto
  with assms(1) show ?thesis by (auto simp: set_extract_function_calls)
qed

lemma entry_has_call:
  assumes "x \<in> set (extract_function_calls d)"
  shows "\<exists>c \<in> set (pre_order d). \<exists>ctx as ks.
           c = Call (Name x ctx) as ks \<or> (\<exists>v. c = Call (Attribute v x ctx) as ks)"
proof -
  from assms obtain c where c: "c \<in> set (pre_order d)" "x \<in> set (append_call [] c)"
    by (auto simp: set_extract_function_calls)
  from c(2) have "\<exists>ctx as ks. c = Call (Name x ctx) as ks \<or> (\<exists>v. c = Call (Attribute v x ctx) as ks)"
    by (induction "[]::string list" c rule: append_call.induct) simp_all
  with c(1) show ?thesis by blast
qed

section \<open>Facts about the examples and the records\<close>

lemma remdups_iteration: "set_iteration remdups"
  by (simp add: set_iteration_def)

lemma inner_in_outer: "inner_def \<in> set (pre_order outer_def)"
  by (simp add: pre_order.simps outer_def_def inner_def_def no_args_def)

lemma helper_in_inner: "Call (Name ''helper'' Load) [] [] \<in> set (pre_order inner_def)"
  by (simp add: pre_order.simps inner_def_def no_args_def)

lemma extract_function_calls_async:
  "extract_function_calls (AsyncFunctionDef nm a b dl r l e)
     = extract_function_calls (FunctionDef nm a b dl r l e)"
  by (simp add: extract_function_calls_concat walk_unfold)

lemma make_record_async:
  "make_record ls (AsyncFunctionDef nm a b dl r l e) nm l e
     = make_record ls (FunctionDef nm a b dl r l e) nm l e"
  by (simp add: make_record_def extract_function_calls_async)

lemma record_from_definition:
  assumes "r \<in> set (extract_functions ls t fp)"
  obtains d nm l e where "d \<in> set (pre_order t)" "definition_fields d = Some (nm, l, e)"
    "r = make_record ls d nm l e"
proof -
  from assms obtain d where d: "d \<in> set (pre_order t)" "r \<in> set (append_function ls [] d)"
    by (auto simp: set_extract_functions)
  show thesis
  proof (cases "definition_fields d")
    case None
    with d(2) show thesis by (simp add: append_function_fields)
  next
    case (Some fields)
    obtain nm l e where fields: "fields = (nm, l, e)" by (cases fields)
    with Some d(2) have "r = make_record ls d nm l e" by (simp add: append_function_fields)
    with d(1) Some fields that show thesis by blast
  qed
qed

lemma same_record_make:
  "set_iteration ls \<Longrightarrow> set_iteration ls' \<Longrightarrow>
   same_record (make_record ls d nm l e) (make_record ls' d nm l e)"
  by (simp add: same_record_def make_record_def set_iteration_def)

lemma same_record_append_function:
  assumes "set_iteration ls" "set_iteration ls'"
  shows "list_all2 same_record (append_function ls [] d) (append_function ls' [] d)"
  using assms by (cases d) (simp_all add: same_record_make)

lemma list_all2_concat_map:
  assumes "\<And>x. list_all2 P (f x) (g x)"
  shows "list_all2 P (concat (map f xs)) (concat (map g xs))"
  by (induction xs) (simp_all add: assms list_all2_appendI)

lemma same_record_extract_functions:
  assumes "set_iteration ls" "set_iteration ls'"
  shows "list_all2 same_record (extract_functions ls t fp) (extract_functions ls' t fp')"
  unfolding extract_functions_concat
  by (rule list_all2_concat_map) (rule same_record_append_function [OF assms])

section \<open>Properties of the entry point\<close>

lemma main_try_error_independent:
  "(main_try json_loads ast_parse ls stdin = Inl e)
     = (main_try json_loads ast_parse ls' stdin = Inl e)"
proof (cases "json_loads stdin")
  case (Inl x)
  then show ?thesis by (simp add: main_try_def)
next
  case d: (Inr d)
  show ?thesis
  proof (cases "getitem d ''file''")
    case (Inl x)
    with d show ?thesis by (simp add: main_try_def)
  next
    case fv: (Inr fv)
    show ?thesis
    proof (cases "getitem d ''content''")
      case (Inl x)
      with d fv show ?thesis by (simp add: main_try_def)
    next
      case cv: (Inr cv)
      with d fv show ?thesis by (cases "ast_parse cv fv") (simp_all add: main_try_def)
    qed
  qed
qed

lemma main_error_independent:
  "stderr (main json_loads ast_parse ls stdin) = stderr (main json_loads ast_parse ls' stdin)
   \<and> exit_code (main json_loads ast_parse ls stdin)
       = exit_code (main json_loads ast_parse ls' stdin)"
proof (cases "main_try json_loads ast_parse ls stdin")
  case (Inl e)
  with main_try_error_independent [of json_loads ast_parse ls stdin e ls']
  have "main_try json_loads ast_parse ls' stdin = Inl e" by blast
  with Inl show ?thesis by (simp add: main_def)
next
  case (Inr v)
  have "\<exists>v'. main_try json_loads ast_parse ls' stdin = Inr v'"
  proof (cases "main_try json_loads ast_parse ls' stdin")
    case (Inl e)
    with main_try_error_independent [of json_loads ast_parse ls stdin e ls']
    have "main_try json_loads ast_parse ls stdin = Inl e" by blast
    with Inr show ?thesis by simp
  next
    case (Inr v')
    then show ?thesis by blast
  qed
  then obtain v' where "main_try json_loads ast_parse ls' stdin = Inr v'" by blast
  with Inr show ?thesis by (simp add: main_def)
qed

lemma rev_remdups_iteration: "set_iteration (\<lambda>cs. rev (remdups cs))"
  by (simp add: set_iteration_def)

lemma main_try_request:
  assumes "json_loads stdin = Inr (JObject items)"
    and "map_of items ''file'' = Some fv"
    and "map_of items ''content'' = Some cv"
  shows "main_try json_loads ast_parse ls stdin =
     (case ast_parse cv fv of
        Inl e \<Rightarrow> Inl e
      | Inr tree \<Rightarrow> Inr (functions_json (extract_functions ls tree fv)))"
  using assms by (simp add: main_try_def)

lemma extract_functions_path: "extract_functions ls t fp = extract_functions ls t fp'"
  by (simp add: extract_functions_def)

lemma getitem_not_dict:
  "(\<forall>items. v \<noteq> JObject items) \<Longrightarrow> \<exists>msg. getitem v key = Inl (Exception ''TypeError'' msg)"
  by (cases v) simp_all

lemma field_member: "Some x \<in> set kd \<Longrightarrow> x \<in> set (concat (map field kd))"
  by (induction kd) auto

lemma parse_with_strings:
  "parse_with grammar (JString content) (JString path) =
     (if CHR 0x00 \<in> set path then Inl (Exception ''ValueError'' ''embedded null character'')
      else case grammar content of Inl err \<Rightarrow> Inl (err path) | Inr tree \<Rightarrow> Inr tree)"
  by (simp add: parse_with_def)

section \<open>The claims\<close>

text \<open>
  C1, as stated: the records are listed in the order of a depth-first, pre-order traversal.
  This fails on \<open>nested_then_sibling\<close>: \<^verbatim>\<open>ast.walk\<close> is breadth-first, so \<^verbatim>\<open>c\<close> (depth 1) is
  recorded before \<^verbatim>\<open>b\<close> (depth 2), while the pre-order walk meets \<^verbatim>\<open>b\<close> first.
\<close>

theorem extract_functions_not_pre_order:
  "map name (extract_functions remdups nested_then_sibling ''m.py'')
     \<noteq> map name (foldl (append_function remdups) [] (pre_order nested_then_sibling))"
  by (simp add: extract_functions_def walk_def pre_order.simps nested_then_sibling_def
      no_args_def make_record_def)

text \<open>
  C1, amended: the records are listed in the order of the breadth-first, level-order
  traversal (every definition of one nesting depth, left to right, before those of the next
  depth); they are the records of the pre-order traversal in another order.
\<close>

theorem extract_functions_level_order:
  "extract_functions ls t fp = foldl (append_function ls) [] (level_order t)
   \<and> mset (extract_functions ls t fp) = mset (foldl (append_function ls) [] (pre_order t))"
proof
  show "extract_functions ls t fp = foldl (append_function ls) [] (level_order t)"
    by (simp add: extract_functions_def walk_level_order)
next
  have "mset (concat (map (append_function ls []) (walk t)))
      = mset (concat (map (append_function ls []) (pre_order t)))"
    using mset_walk [of t] by (rule mset_concat_map)
  then show "mset (extract_functions ls t fp) = mset (foldl (append_function ls) [] (pre_order t))"
    by (simp add: extract_functions_concat foldl_append_function)
qed

text \<open>
  C2: the \<^verbatim>\<open>calls\<close> of a definition are collected over its whole subtree, so a named call
  inside a nested definition is in the \<^verbatim>\<open>calls\<close> of the nested definition and of every
  definition around it.
\<close>

theorem calls_cover_subtree:
  assumes "set_iteration ls"
    and "definition_fields outer = Some (nm, l, e)"
    and "definition_fields inner = Some (nm', l', e')"
    and "inner \<in> set (pre_order outer)"
    and "c \<in> set (pre_order inner)"
    and "c = Call (Name f ctx) as ks \<or> c = Call (Attribute v f ctx) as ks"
  shows "set (calls (make_record ls outer nm l e))
           = (\<Union>k \<in> set (pre_order outer). set (append_call [] k))
         \<and> f \<in> set (calls (make_record ls inner nm' l' e'))
         \<and> f \<in> set (calls (make_record ls outer nm l e))"
proof -
  from assms(4,5) have "c \<in> set (pre_order outer)" by (rule pre_order_trans)
  then have "f \<in> set (extract_function_calls outer)" using assms(6) by (rule call_in_subtree)
  moreover have "f \<in> set (extract_function_calls inner)"
    using assms(5,6) by (rule call_in_subtree)
  ultimately show ?thesis
    using assms(1) by (simp add: calls_make_record set_extract_function_calls)
qed

theorem calls_cover_subtree_witness:
  "inner_def \<in> set (pre_order outer_def)
   \<and> Call (Name ''helper'' Load) [] [] \<in> set (pre_order inner_def)
   \<and> ''helper'' \<in> set (calls (make_record remdups inner_def ''inner'' 2 (Some 3)))
   \<and> ''helper'' \<in> set (calls (make_record remdups outer_def ''outer'' 1 (Some 4)))
   \<and> calls (make_record remdups outer_def ''outer'' 1 (Some 4)) = [''process'', ''helper'']"
proof -
  have o: "definition_fields outer_def = Some (''outer'', 1, Some 4)"
    by (simp add: outer_def_def)
  have i: "definition_fields inner_def = Some (''inner'', 2, Some 3)"
    by (simp add: inner_def_def)
  have c: "Call (Name ''helper'' Load) [] [] = Call (Name ''helper'' Load) [] []
      \<or> Call (Name ''helper'' Load) [] [] = Call (Attribute Load ''helper'' Load) [] []"
    by simp
  have k: "calls (make_record remdups outer_def ''outer'' 1 (Some 4)) = [''process'', ''helper'']"
    by (simp add: make_record_def extract_function_calls_def walk_def outer_def_def
        inner_def_def no_args_def)
  from calls_cover_subtree [OF remdups_iteration o i inner_in_outer helper_in_inner c]
  have "''helper'' \<in> set (calls (make_record remdups inner_def ''inner'' 2 (Some 3)))"
    and "''helper'' \<in> set (calls (make_record remdups outer_def ''outer'' 1 (Some 4)))"
    by blast+
  with k inner_in_outer helper_in_inner show ?thesis by blast
qed

text \<open>
  C4: a call whose callee is a bare name adds that name to \<^verbatim>\<open>calls\<close>; a call whose callee is
  an attribute access adds the final attribute name only (\<^verbatim>\<open>a.b.c()\<close> adds \<^verbatim>\<open>c\<close>, neither
  \<^verbatim>\<open>a\<close> nor \<^verbatim>\<open>b\<close>); every entry of \<^verbatim>\<open>calls\<close> comes from such a call, so a callee of any
  other shape (the result of a call, a subscript, a lambda) adds nothing.
\<close>

theorem call_target_names:
  assumes "set_iteration ls"
  shows "(Call (Name f ctx) as ks \<in> set (pre_order d)
            \<longrightarrow> f \<in> set (calls (make_record ls d nm l e)))
       \<and> (Call (Attribute v m ctx) as ks \<in> set (pre_order d)
            \<longrightarrow> m \<in> set (calls (make_record ls d nm l e)))
       \<and> (\<forall>x \<in> set (calls (make_record ls d nm l e)).
            \<exists>c \<in> set (pre_order d). \<exists>ctx' as' ks'.
              c = Call (Name x ctx') as' ks' \<or> (\<exists>v'. c = Call (Attribute v' x ctx') as' ks'))
       \<and> extract_function_calls
            (def_calling (Attribute (Attribute (Name a Load) b Load) c Load)) = [c]
       \<and> extract_function_calls (def_calling (Call (Name g Load) [] [])) = [g]
       \<and> extract_function_calls (def_calling (Other [Name xs Load, Name i Load])) = []
       \<and> extract_function_calls (def_calling (Lambda no_args (Name y Load))) = []"
proof (intro conjI impI ballI)
  assume "Call (Name f ctx) as ks \<in> set (pre_order d)"
  then have "f \<in> set (extract_function_calls d)" by (rule call_in_subtree) simp
  with assms show "f \<in> set (calls (make_record ls d nm l e))"
    by (simp add: calls_make_record)
next
  assume "Call (Attribute v m ctx) as ks \<in> set (pre_order d)"
  then have "m \<in> set (extract_function_calls d)" by (rule call_in_subtree) simp
  with assms show "m \<in> set (calls (make_record ls d nm l e))"
    by (simp add: calls_make_record)
next
  fix x
  assume "x \<in> set (calls (make_record ls d nm l e))"
  with assms have "x \<in> set (extract_function_calls d)" by (simp add: calls_make_record)
  then show "\<exists>c \<in> set (pre_order d). \<exists>ctx' as' ks'.
      c = Call (Name x ctx') as' ks' \<or> (\<exists>v'. c = Call (Attribute v' x ctx') as' ks')"
    by (rule entry_has_call)
next
  show "extract_function_calls
      (def_calling (Attribute (Attribute (Name a Load) b Load) c Load)) = [c]"
    by (simp add: extract_function_calls_def walk_def def_calling_def no_args_def)
next
  show "extract_function_calls (def_calling (Call (Name g Load) [] [])) = [g]"
    by (simp add: extract_function_calls_def walk_def def_calling_def no_args_def)
next
  show "extract_function_calls (def_calling (Other [Name xs Load, Name i Load])) = []"
    by (simp add: extract_function_calls_def walk_def def_calling_def no_args_def)
next
  show "extract_function_calls (def_calling (Lambda no_args (Name y Load))) = []"
    by (simp add: extract_function_calls_def walk_def def_calling_def no_args_def)
qed

theorem call_target_names_witness:
  "Call (Attribute (Attribute (Name ''a'' Load) ''b'' Load) ''c'' Load) [] []
     \<in> set (pre_order (def_calling (Attribute (Attribute (Name ''a'' Load) ''b'' Load) ''c'' Load)))
   \<and> ''c'' \<in> set (calls (make_record remdups
        (def_calling (Attribute (Attribute (Name ''a'' Load) ''b'' Load) ''c'' Load)) ''f'' 1 (Some 1)))
   \<and> calls (make_record remdups
        (def_calling (Attribute (Attribute (Name ''a'' Load) ''b'' Load) ''c'' Load)) ''f'' 1 (Some 1))
      = [''c'']"
proof -
  let ?callee = "Attribute (Attribute (Name ''a'' Load) ''b'' Load) ''c'' Load"
  have inside: "Call ?callee [] [] \<in> set (pre_order (def_calling ?callee))"
    by (simp add: pre_order.simps def_calling_def no_args_def)
  from call_target_names [OF remdups_iteration, where d = "def_calling ?callee"
      and nm = "''f''" and l = 1 and e = "Some 1" and v = "Attribute (Name ''a'' Load) ''b'' Load"
      and m = "''c''" and ctx = Load and as = "[]" and ks = "[]"
      and a = "''a''" and b = "''b''" and c = "''c''"]
  have imp: "Call ?callee [] [] \<in> set (pre_order (def_calling ?callee))
      \<longrightarrow> ''c'' \<in> set (calls (make_record remdups (def_calling ?callee) ''f'' 1 (Some 1)))"
    and val: "extract_function_calls (def_calling ?callee) = [''c'']"
    by blast+
  from val have "calls (make_record remdups (def_calling ?callee) ''f'' 1 (Some 1)) = [''c'']"
    by (simp add: make_record_def)
  with inside imp show ?thesis by blast
qed

text \<open>
  C6: every function definition and every asynchronous function definition anywhere in
  the tree, at any depth and under any kind of node, has its record in the result; there
  are as many records as definition nodes; and an asynchronous definition gives the record
  that the synchronous definition with the same fields gives.
\<close>

theorem every_definition_recorded:
  assumes "d \<in> set (pre_order t)"
    and "d = FunctionDef nm a b dl r l e \<or> d = AsyncFunctionDef nm a b dl r l e"
  shows "make_record ls d nm l e \<in> set (extract_functions ls t fp)
       \<and> length (extract_functions ls t fp) = length (filter is_definition (pre_order t))
       \<and> make_record ls (AsyncFunctionDef nm a b dl r l e) nm l e
           = make_record ls (FunctionDef nm a b dl r l e) nm l e
       \<and> extract_functions ls (AsyncFunctionDef nm a b dl r l e) fp
           = extract_functions ls (FunctionDef nm a b dl r l e) fp"
proof (intro conjI)
  from assms(2) have "make_record ls d nm l e \<in> set (append_function ls [] d)" by auto
  with assms(1) show "make_record ls d nm l e \<in> set (extract_functions ls t fp)"
    by (auto simp: set_extract_functions)
next
  show "length (extract_functions ls t fp) = length (filter is_definition (pre_order t))"
    by (rule length_extract_functions)
next
  show "make_record ls (AsyncFunctionDef nm a b dl r l e) nm l e
      = make_record ls (FunctionDef nm a b dl r l e) nm l e"
    by (rule make_record_async)
next
  show "extract_functions ls (AsyncFunctionDef nm a b dl r l e) fp
      = extract_functions ls (FunctionDef nm a b dl r l e) fp"
    by (simp add: extract_functions_concat walk_unfold make_record_async)
qed

theorem every_definition_recorded_witness:
  "method_def \<in> set (pre_order class_module)
   \<and> make_record remdups method_def ''m'' 3 (Some 3)
        \<in> set (extract_functions remdups class_module ''m.py'')
   \<and> extract_functions remdups class_module ''m.py''
        = [\<lparr>name = ''m'', start_line = 3, end_line = 3, calls = []\<rparr>]"
proof -
  have inside: "method_def \<in> set (pre_order class_module)"
    by (simp add: pre_order.simps class_module_def method_def_def)
  have shape: "method_def = FunctionDef ''m'' (arguments [] [Other []] None [] [] None [])
        [Other []] [] None 3 (Some 3)
      \<or> method_def = AsyncFunctionDef ''m'' (arguments [] [Other []] None [] [] None [])
        [Other []] [] None 3 (Some 3)"
    by (simp add: method_def_def)
  have val: "extract_functions remdups class_module ''m.py''
      = [\<lparr>name = ''m'', start_line = 3, end_line = 3, calls = []\<rparr>]"
    by (simp add: extract_functions_def walk_def class_module_def method_def_def
        make_record_def extract_function_calls_def)
  from every_definition_recorded [OF inside shape, of remdups "''m.py''"]
  have "make_record remdups method_def ''m'' 3 (Some 3)
      \<in> set (extract_functions remdups class_module ''m.py'')"
    by blast
  with inside val show ?thesis by blast
qed

text \<open>
  C10: every record of the result is the record of a \<^verbatim>\<open>FunctionDef\<close> or
  \<^verbatim>\<open>AsyncFunctionDef\<close> node of the tree; a tree without such a node gives no record; a
  \<^verbatim>\<open>Lambda\<close> node is not such a node and adds no record.
\<close>

theorem only_definitions_recorded:
  "(\<forall>r \<in> set (extract_functions ls t fp).
      \<exists>d \<in> set (pre_order t). \<exists>nm a b dl rt l e.
        (d = FunctionDef nm a b dl rt l e \<or> d = AsyncFunctionDef nm a b dl rt l e)
        \<and> r = make_record ls d nm l e)
   \<and> ((\<forall>d \<in> set (pre_order t). \<not> is_definition d) \<longrightarrow> extract_functions ls t fp = [])
   \<and> \<not> is_definition (Lambda args body)
   \<and> append_function ls fs (Lambda args body) = fs"
proof (intro conjI ballI impI)
  fix r
  assume "r \<in> set (extract_functions ls t fp)"
  then obtain d where d: "d \<in> set (pre_order t)" "r \<in> set (append_function ls [] d)"
    by (auto simp: set_extract_functions)
  from d(2) have "\<exists>nm a b dl rt l e.
      (d = FunctionDef nm a b dl rt l e \<or> d = AsyncFunctionDef nm a b dl rt l e)
      \<and> r = make_record ls d nm l e"
    by (cases d) simp_all
  with d(1) show "\<exists>d \<in> set (pre_order t). \<exists>nm a b dl rt l e.
      (d = FunctionDef nm a b dl rt l e \<or> d = AsyncFunctionDef nm a b dl rt l e)
      \<and> r = make_record ls d nm l e"
    by blast
next
  assume "\<forall>d \<in> set (pre_order t). \<not> is_definition d"
  then have "filter is_definition (pre_order t) = []" by (simp add: filter_empty_conv)
  then have "length (extract_functions ls t fp) = 0" by (simp add: length_extract_functions)
  then show "extract_functions ls t fp = []" by simp
next
  show "\<not> is_definition (Lambda args body)" by (simp add: is_definition_def)
next
  show "append_function ls fs (Lambda args body) = fs" by simp
qed

theorem only_definitions_recorded_witness:
  "filter is_definition (pre_order lambda_only) = []
   \<and> extract_functions remdups lambda_only ''m.py'' = []
   \<and> extract_functions remdups lambda_module ''m.py''
        = [\<lparr>name = ''h'', start_line = 2, end_line = 2, calls = []\<rparr>]"
proof -
  have none: "filter is_definition (pre_order lambda_only) = []"
    by (simp add: pre_order.simps lambda_only_def lambda_assign_def is_definition_def)
  then have "\<forall>d \<in> set (pre_order lambda_only). \<not> is_definition d"
    by (simp add: filter_empty_conv)
  with only_definitions_recorded [of remdups lambda_only "''m.py''"]
  have empty: "extract_functions remdups lambda_only ''m.py'' = []" by blast
  have val: "extract_functions remdups lambda_module ''m.py''
      = [\<lparr>name = ''h'', start_line = 2, end_line = 2, calls = []\<rparr>]"
    by (simp add: extract_functions_def walk_def lambda_module_def lambda_assign_def
        no_args_def make_record_def extract_function_calls_def)
  from none empty val show ?thesis by blast
qed

text \<open>
  C5: in every record of a result, \<^verbatim>\<open>start_line\<close> is at most \<^verbatim>\<open>end_line\<close> and \<^verbatim>\<open>calls\<close> has
  no duplicate entry. The first half rests on the positions of the parsed tree
  (\<open>spans_ordered\<close>), the second on \<^verbatim>\<open>list(set(calls))\<close>.
\<close>

theorem record_invariants:
  assumes "set_iteration ls"
    and "spans_ordered t"
    and "r \<in> set (extract_functions ls t fp)"
  shows "start_line r \<le> end_line r \<and> distinct (calls r)"
proof -
  from assms(3) obtain d nm l e where d: "d \<in> set (pre_order t)"
    "definition_fields d = Some (nm, l, e)" "r = make_record ls d nm l e"
    by (rule record_from_definition)
  from assms(2) d(1) have "span_ordered d"
    by (simp add: spans_ordered_def list_all_iff)
  with d(2) have "l \<le> (case e of Some e' \<Rightarrow> e' | None \<Rightarrow> l)"
    by (cases e) (simp_all add: span_ordered_def)
  with d(3) have "start_line r \<le> end_line r" by (simp add: make_record_def)
  moreover from assms(1) d(3) have "distinct (calls r)"
    by (simp add: make_record_def set_iteration_def)
  ultimately show ?thesis by simp
qed

theorem record_invariants_witness:
  "spans_ordered outer_module
   \<and> extract_functions remdups outer_module ''m.py''
       = [\<lparr>name = ''outer'', start_line = 1, end_line = 4, calls = [''process'', ''helper'']\<rparr>,
          \<lparr>name = ''inner'', start_line = 2, end_line = 3, calls = [''helper'']\<rparr>]
   \<and> start_line \<lparr>name = ''inner'', start_line = 2, end_line = 3, calls = [''helper'']\<rparr>
       \<le> end_line \<lparr>name = ''inner'', start_line = 2, end_line = 3, calls = [''helper'']\<rparr>
   \<and> distinct (calls \<lparr>name = ''inner'', start_line = 2, end_line = 3, calls = [''helper'']\<rparr>)"
proof -
  let ?inner = "\<lparr>name = ''inner'', start_line = 2, end_line = 3, calls = [''helper'']\<rparr>"
  have spans: "spans_ordered outer_module"
    by (simp add: spans_ordered_def span_ordered_def pre_order.simps outer_module_def
        outer_def_def inner_def_def no_args_def)
  have val: "extract_functions remdups outer_module ''m.py''
      = [\<lparr>name = ''outer'', start_line = 1, end_line = 4, calls = [''process'', ''helper'']\<rparr>,
         ?inner]"
    by (simp add: extract_functions_def walk_def outer_module_def outer_def_def inner_def_def
        no_args_def make_record_def extract_function_calls_def)
  then have "?inner \<in> set (extract_functions remdups outer_module ''m.py'')" by simp
  then have "start_line ?inner \<le> end_line ?inner \<and> distinct (calls ?inner)"
    by (rule record_invariants [OF remdups_iteration spans])
  with spans val show ?thesis by blast
qed

text \<open>
  C7: the result is a function of the input. The one thing in the source that varies between
  two runs on the same input is the order in which \<^verbatim>\<open>list(set(calls))\<close> lists a set; for any
  two such orders the outcomes agree: the same error, or sequences of the same length whose
  records agree position by position in name and lines and hold the same \<^verbatim>\<open>calls\<close> as sets.
\<close>

theorem analyze_deterministic:
  assumes "set_iteration ls" and "set_iteration ls'"
  shows "rel_sum (=) (list_all2 same_record)
           (analyze ast_parse ls file content) (analyze ast_parse ls' file content)
       \<and> map name (extract_functions ls t fp) = map name (extract_functions ls' t fp)
       \<and> stderr (main json_loads ast_parse ls stdin) = stderr (main json_loads ast_parse ls' stdin)
       \<and> exit_code (main json_loads ast_parse ls stdin)
           = exit_code (main json_loads ast_parse ls' stdin)"
proof (intro conjI)
  show "rel_sum (=) (list_all2 same_record)
      (analyze ast_parse ls file content) (analyze ast_parse ls' file content)"
    by (cases "ast_parse (JString content) (JString file)")
      (simp_all add: analyze_def same_record_extract_functions [OF assms])
next
  have "list_all2 same_record (extract_functions ls t fp) (extract_functions ls' t fp)"
    by (rule same_record_extract_functions [OF assms])
  then have "list_all2 (\<lambda>r r'. name r = name r')
      (extract_functions ls t fp) (extract_functions ls' t fp)"
    by (rule list_all2_mono) (simp add: same_record_def)
  then show "map name (extract_functions ls t fp) = map name (extract_functions ls' t fp)"
    by (simp add: list_all2_conv_all_nth list_eq_iff_nth_eq)
next
  show "stderr (main json_loads ast_parse ls stdin) = stderr (main json_loads ast_parse ls' stdin)"
    by (rule main_error_independent [THEN conjunct1])
next
  show "exit_code (main json_loads ast_parse ls stdin)
      = exit_code (main json_loads ast_parse ls' stdin)"
    by (rule main_error_independent [THEN conjunct2])
qed

theorem analyze_deterministic_witness:
  "analyze (\<lambda>content file_path. Inr outer_module) remdups ''m.py'' ''src''
     = Inr [\<lparr>name = ''outer'', start_line = 1, end_line = 4, calls = [''process'', ''helper'']\<rparr>,
            \<lparr>name = ''inner'', start_line = 2, end_line = 3, calls = [''helper'']\<rparr>]
   \<and> analyze (\<lambda>content file_path. Inr outer_module) (\<lambda>cs. rev (remdups cs)) ''m.py'' ''src''
     = Inr [\<lparr>name = ''outer'', start_line = 1, end_line = 4, calls = [''helper'', ''process'']\<rparr>,
            \<lparr>name = ''inner'', start_line = 2, end_line = 3, calls = [''helper'']\<rparr>]
   \<and> rel_sum (=) (list_all2 same_record)
         (analyze (\<lambda>content file_path. Inr outer_module) remdups ''m.py'' ''src'')
         (analyze (\<lambda>content file_path. Inr outer_module) (\<lambda>cs. rev (remdups cs)) ''m.py'' ''src'')"
proof -
  have a: "analyze (\<lambda>content file_path. Inr outer_module) remdups ''m.py'' ''src''
     = Inr [\<lparr>name = ''outer'', start_line = 1, end_line = 4, calls = [''process'', ''helper'']\<rparr>,
            \<lparr>name = ''inner'', start_line = 2, end_line = 3, calls = [''helper'']\<rparr>]"
    by (simp add: analyze_def extract_functions_def walk_def outer_module_def outer_def_def
        inner_def_def no_args_def make_record_def extract_function_calls_def)
  have b: "analyze (\<lambda>content file_path. Inr outer_module) (\<lambda>cs. rev (remdups cs)) ''m.py'' ''src''
     = Inr [\<lparr>name = ''outer'', start_line = 1, end_line = 4, calls = [''helper'', ''process'']\<rparr>,
            \<lparr>name = ''inner'', start_line = 2, end_line = 3, calls = [''helper'']\<rparr>]"
    by (simp add: analyze_def extract_functions_def walk_def outer_module_def outer_def_def
        inner_def_def no_args_def make_record_def extract_function_calls_def)
  have "rel_sum (=) (list_all2 same_record)
         (analyze (\<lambda>content file_path. Inr outer_module) remdups ''m.py'' ''src'')
         (analyze (\<lambda>content file_path. Inr outer_module) (\<lambda>cs. rev (remdups cs)) ''m.py'' ''src'')"
    by (rule analyze_deterministic [OF remdups_iteration rev_remdups_iteration, THEN conjunct1])
  with a b show ?thesis by blast
qed

text \<open>
  C3, as stated: \<^verbatim>\<open>analyze\<close> returns an error exactly when the content is syntactically
  invalid. This fails for a file name with a NUL character: \<^verbatim>\<open>ast.parse\<close> raises
  \<^verbatim>\<open>ValueError\<close> before it reads the content, so \<^verbatim>\<open>analyze\<close> returns an error on the valid
  content \<^verbatim>\<open>def f(): g()\<close>.
\<close>

theorem valid_content_null_path_error:
  "sample_grammar ''def f(): g()'' = Inr (Other [def_calling (Name ''g'' Load)])
   \<and> analyze (parse_with sample_grammar) remdups null_path ''def f(): g()''
       = Inl (Exception ''ValueError'' ''embedded null character'')"
  by (simp add: sample_grammar_def analyze_def parse_with_def null_path_def)

text \<open>
  C3, amended: \<^verbatim>\<open>analyze\<close> returns an error exactly when \<^verbatim>\<open>ast.parse\<close> raises, which it does
  when the file name holds a NUL character or when the parser proper gives no tree for the
  content. On a content that the parser turns into a tree, under a file name without NUL,
  it returns the sequence of records; on a content the parser rejects it returns the
  parser's error, labelled with the file name, and no sequence. At the entry point a run on
  a well-formed request prints either the sequence on the output channel, with exit code 0,
  or the error on the error channel, with exit code 1; no run prints on both channels.
\<close>

theorem analyze_error_iff_parse_fails:
  "(grammar content = Inr tree \<and> CHR 0x00 \<notin> set path
       \<longrightarrow> analyze (parse_with grammar) ls path content = Inr (extract_functions ls tree path))
   \<and> (grammar content = Inl err \<and> CHR 0x00 \<notin> set path
       \<longrightarrow> analyze (parse_with grammar) ls path content = Inl (err path))
   \<and> (CHR 0x00 \<in> set path
       \<longrightarrow> analyze (parse_with grammar) ls path content
           = Inl (Exception ''ValueError'' ''embedded null character''))
   \<and> (isl (analyze (parse_with grammar) ls path content)
       \<longleftrightarrow> CHR 0x00 \<in> set path \<or> isl (grammar content))
   \<and> (json_loads stdin = Inr (JObject items)
        \<and> map_of items ''file'' = Some (JString path)
        \<and> map_of items ''content'' = Some (JString content)
       \<longrightarrow> main json_loads (parse_with grammar) ls stdin =
           (case analyze (parse_with grammar) ls path content of
              Inr fs \<Rightarrow> \<lparr>stdout = [functions_json fs], stderr = [], exit_code = 0\<rparr>
            | Inl e \<Rightarrow> \<lparr>stdout = [], stderr = [error_json e], exit_code = 1\<rparr>))
   \<and> (stderr (main json_loads (parse_with grammar) ls stdin) \<noteq> []
       \<longrightarrow> stdout (main json_loads (parse_with grammar) ls stdin) = [])"
proof (intro conjI impI)
  assume "grammar content = Inr tree \<and> CHR 0x00 \<notin> set path"
  then show "analyze (parse_with grammar) ls path content = Inr (extract_functions ls tree path)"
    by (simp add: analyze_def parse_with_strings)
next
  assume "grammar content = Inl err \<and> CHR 0x00 \<notin> set path"
  then show "analyze (parse_with grammar) ls path content = Inl (err path)"
    by (simp add: analyze_def parse_with_strings)
next
  assume "CHR 0x00 \<in> set path"
  then show "analyze (parse_with grammar) ls path content
      = Inl (Exception ''ValueError'' ''embedded null character'')"
    by (simp add: analyze_def parse_with_strings)
next
  show "isl (analyze (parse_with grammar) ls path content)
      \<longleftrightarrow> CHR 0x00 \<in> set path \<or> isl (grammar content)"
    by (cases "grammar content") (simp_all add: analyze_def parse_with_strings)
next
  assume "json_loads stdin = Inr (JObject items)
      \<and> map_of items ''file'' = Some (JString path)
      \<and> map_of items ''content'' = Some (JString content)"
  then have "main_try json_loads (parse_with grammar) ls stdin =
     (case parse_with grammar (JString content) (JString path) of
        Inl e \<Rightarrow> Inl e
      | Inr tree \<Rightarrow> Inr (functions_json (extract_functions ls tree (JString path))))"
    by (simp add: main_try_request)
  then show "main json_loads (parse_with grammar) ls stdin =
      (case analyze (parse_with grammar) ls path content of
         Inr fs \<Rightarrow> \<lparr>stdout = [functions_json fs], stderr = [], exit_code = 0\<rparr>
       | Inl e \<Rightarrow> \<lparr>stdout = [], stderr = [error_json e], exit_code = 1\<rparr>)"
    by (cases "parse_with grammar (JString content) (JString path)")
      (simp_all add: main_def analyze_def error_json_def
        extract_functions_path [where fp = "JString path" and fp' = "path"])
next
  assume "stderr (main json_loads (parse_with grammar) ls stdin) \<noteq> []"
  then show "stdout (main json_loads (parse_with grammar) ls stdin) = []"
    by (cases "main_try json_loads (parse_with grammar) ls stdin") (simp_all add: main_def)
qed

theorem analyze_error_iff_parse_fails_witness:
  "analyze (parse_with sample_grammar) remdups ''m.py'' ''def f(): g()''
     = Inr [\<lparr>name = ''f'', start_line = 1, end_line = 1, calls = [''g'']\<rparr>]
   \<and> analyze (parse_with sample_grammar) remdups ''m.py'' ''def f(:''
     = Inl (Exception ''SyntaxError'' ''invalid syntax (m.py, line 1)'')
   \<and> analyze (parse_with sample_grammar) remdups null_path ''def f(): g()''
     = Inl (Exception ''ValueError'' ''embedded null character'')
   \<and> main (\<lambda>stdin. Inr (request ''m.py'' ''def f(): g()'')) (parse_with sample_grammar) remdups ''in''
     = \<lparr>stdout = [JArray [JObject [(''name'', JString ''f''), (''start_line'', JNumber 1),
                                   (''end_line'', JNumber 1), (''calls'', JArray [JString ''g''])]]],
        stderr = [], exit_code = 0\<rparr>
   \<and> main (\<lambda>stdin. Inr (request ''m.py'' ''def f(:'')) (parse_with sample_grammar) remdups ''in''
     = \<lparr>stdout = [],
        stderr = [JObject [(''error'', JString ''invalid syntax (m.py, line 1)'')]],
        exit_code = 1\<rparr>
   \<and> main (\<lambda>stdin. Inr (request null_path ''def f(): g()'')) (parse_with sample_grammar)
        remdups ''in''
     = \<lparr>stdout = [],
        stderr = [JObject [(''error'', JString ''embedded null character'')]],
        exit_code = 1\<rparr>"
proof -
  let ?tree = "Other [def_calling (Name ''g'' Load)]"
  let ?label = "\<lambda>fname. Exception ''SyntaxError'' (''invalid syntax ('' @ fname @ '', line 1)'')"
  have good: "sample_grammar ''def f(): g()'' = Inr ?tree"
    by (simp add: sample_grammar_def)
  have bad: "sample_grammar ''def f(:'' = Inl ?label"
    by (simp add: sample_grammar_def)
  have plain: "CHR 0x00 \<notin> set ''m.py''"
    by simp
  have null: "CHR 0x00 \<in> set null_path"
    by (simp add: null_path_def)
  have val: "extract_functions remdups ?tree ''m.py''
      = [\<lparr>name = ''f'', start_line = 1, end_line = 1, calls = [''g'']\<rparr>]"
    by (simp add: extract_functions_def walk_def def_calling_def no_args_def make_record_def
        extract_function_calls_def)
  note ok = analyze_error_iff_parse_fails [where grammar = sample_grammar and ls = remdups
      and path = "''m.py''" and content = "''def f(): g()''" and tree = ?tree
      and json_loads = "\<lambda>stdin. Inr (request ''m.py'' ''def f(): g()'')"
      and items = "[(''file'', JString ''m.py''), (''content'', JString ''def f(): g()'')]"
      and stdin = "''in''"]
  note ko = analyze_error_iff_parse_fails [where grammar = sample_grammar and ls = remdups
      and path = "''m.py''" and content = "''def f(:''" and err = ?label
      and json_loads = "\<lambda>stdin. Inr (request ''m.py'' ''def f(:'')"
      and items = "[(''file'', JString ''m.py''), (''content'', JString ''def f(:'')]"
      and stdin = "''in''"]
  note nul = analyze_error_iff_parse_fails [where grammar = sample_grammar and ls = remdups
      and path = null_path and content = "''def f(): g()''"
      and json_loads = "\<lambda>stdin. Inr (request null_path ''def f(): g()'')"
      and items = "[(''file'', JString null_path), (''content'', JString ''def f(): g()'')]"
      and stdin = "''in''"]
  from ok good plain val have a: "analyze (parse_with sample_grammar) remdups ''m.py'' ''def f(): g()''
      = Inr [\<lparr>name = ''f'', start_line = 1, end_line = 1, calls = [''g'']\<rparr>]"
    by simp
  from ko bad plain have b: "analyze (parse_with sample_grammar) remdups ''m.py'' ''def f(:''
      = Inl (Exception ''SyntaxError'' ''invalid syntax (m.py, line 1)'')"
    by simp
  from nul null have c: "analyze (parse_with sample_grammar) remdups null_path ''def f(): g()''
      = Inl (Exception ''ValueError'' ''embedded null character'')"
    by blast
  from ok a have d: "main (\<lambda>stdin. Inr (request ''m.py'' ''def f(): g()''))
        (parse_with sample_grammar) remdups ''in''
     = \<lparr>stdout = [JArray [JObject [(''name'', JString ''f''), (''start_line'', JNumber 1),
                                   (''end_line'', JNumber 1), (''calls'', JArray [JString ''g''])]]],
        stderr = [], exit_code = 0\<rparr>"
    by (simp add: request_def functions_json_def record_json_def)
  from ko b have e: "main (\<lambda>stdin. Inr (request ''m.py'' ''def f(:''))
        (parse_with sample_grammar) remdups ''in''
     = \<lparr>stdout = [],
        stderr = [JObject [(''error'', JString ''invalid syntax (m.py, line 1)'')]],
        exit_code = 1\<rparr>"
    by (simp add: request_def error_json_def)
  from nul c have f: "main (\<lambda>stdin. Inr (request null_path ''def f(): g()''))
        (parse_with sample_grammar) remdups ''in''
     = \<lparr>stdout = [],
        stderr = [JObject [(''error'', JString ''embedded null character'')]],
        exit_code = 1\<rparr>"
    by (simp add: request_def error_json_def)
  from a b c d e f show ?thesis by blast
qed

text \<open>
  C8: every exception raised in the \<^verbatim>\<open>try\<close> block ends the run the same way, with nothing on
  the output channel, one object with the single field \<^verbatim>\<open>error\<close> on the error channel, and
  exit code 1. That holds for input that is not JSON, for JSON that is not an object, for an
  object without \<^verbatim>\<open>file\<close> or without \<^verbatim>\<open>content\<close>, and for a parse failure. The outcome
  carries the message only, not the class of the exception: two exceptions with the same
  message give the same outcome.
\<close>

theorem every_exception_same_outcome:
  "(main_try json_loads ast_parse ls stdin = Inl e
       \<longrightarrow> main json_loads ast_parse ls stdin
           = \<lparr>stdout = [], stderr = [JObject [(''error'', JString (str e))]], exit_code = 1\<rparr>)
   \<and> (json_loads stdin = Inl e \<longrightarrow> main_try json_loads ast_parse ls stdin = Inl e)
   \<and> (json_loads stdin = Inr v \<and> (\<forall>items. v \<noteq> JObject items)
       \<longrightarrow> (\<exists>msg. main_try json_loads ast_parse ls stdin = Inl (Exception ''TypeError'' msg)))
   \<and> (json_loads stdin = Inr (JObject items) \<and> map_of items ''file'' = None
       \<longrightarrow> main_try json_loads ast_parse ls stdin = Inl (Exception ''KeyError'' (quoted ''file'')))
   \<and> (json_loads stdin = Inr (JObject items) \<and> map_of items ''file'' = Some fv
        \<and> map_of items ''content'' = None
       \<longrightarrow> main_try json_loads ast_parse ls stdin
           = Inl (Exception ''KeyError'' (quoted ''content'')))
   \<and> (json_loads stdin = Inr (JObject items) \<and> map_of items ''file'' = Some fv
        \<and> map_of items ''content'' = Some cv \<and> ast_parse cv fv = Inl e
       \<longrightarrow> main_try json_loads ast_parse ls stdin = Inl e)
   \<and> (main_try json_loads ast_parse ls stdin = Inl (Exception cls msg)
        \<and> main_try json_loads' ast_parse' ls' stdin' = Inl (Exception cls' msg)
       \<longrightarrow> main json_loads ast_parse ls stdin = main json_loads' ast_parse' ls' stdin')"
proof (intro conjI impI)
  assume "main_try json_loads ast_parse ls stdin = Inl e"
  then show "main json_loads ast_parse ls stdin
      = \<lparr>stdout = [], stderr = [JObject [(''error'', JString (str e))]], exit_code = 1\<rparr>"
    by (simp add: main_def)
next
  assume "json_loads stdin = Inl e"
  then show "main_try json_loads ast_parse ls stdin = Inl e"
    by (simp add: main_try_def)
next
  assume a: "json_loads stdin = Inr v \<and> (\<forall>items. v \<noteq> JObject items)"
  then obtain msg where "getitem v ''file'' = Inl (Exception ''TypeError'' msg)"
    using getitem_not_dict [of v "''file''"] by blast
  with a have "main_try json_loads ast_parse ls stdin = Inl (Exception ''TypeError'' msg)"
    by (simp add: main_try_def)
  then show "\<exists>msg. main_try json_loads ast_parse ls stdin = Inl (Exception ''TypeError'' msg)"
    by blast
next
  assume "json_loads stdin = Inr (JObject items) \<and> map_of items ''file'' = None"
  then show "main_try json_loads ast_parse ls stdin = Inl (Exception ''KeyError'' (quoted ''file''))"
    by (simp add: main_try_def)
next
  assume "json_loads stdin = Inr (JObject items) \<and> map_of items ''file'' = Some fv
      \<and> map_of items ''content'' = None"
  then show "main_try json_loads ast_parse ls stdin
      = Inl (Exception ''KeyError'' (quoted ''content''))"
    by (simp add: main_try_def)
next
  assume "json_loads stdin = Inr (JObject items) \<and> map_of items ''file'' = Some fv
      \<and> map_of items ''content'' = Some cv \<and> ast_parse cv fv = Inl e"
  then show "main_try json_loads ast_parse ls stdin = Inl e"
    by (simp add: main_try_def)
next
  assume "main_try json_loads ast_parse ls stdin = Inl (Exception cls msg)
      \<and> main_try json_loads' ast_parse' ls' stdin' = Inl (Exception cls' msg)"
  then show "main json_loads ast_parse ls stdin = main json_loads' ast_parse' ls' stdin'"
    by (simp add: main_def)
qed

theorem every_exception_same_outcome_witness:
  "main (\<lambda>stdin. Inl (Exception ''JSONDecodeError'' ''Expecting value'')) sample_parse remdups ''in''
     = \<lparr>stdout = [], stderr = [JObject [(''error'', JString ''Expecting value'')]], exit_code = 1\<rparr>
   \<and> main (\<lambda>stdin. Inr (JObject [(''content'', JString ''def f(): g()'')])) sample_parse remdups ''in''
     = \<lparr>stdout = [], stderr = [JObject [(''error'', JString (quoted ''file''))]], exit_code = 1\<rparr>
   \<and> main (\<lambda>stdin. Inr (JObject [(''file'', JString ''m.py'')])) sample_parse remdups ''in''
     = \<lparr>stdout = [], stderr = [JObject [(''error'', JString (quoted ''content''))]], exit_code = 1\<rparr>
   \<and> main (\<lambda>stdin. Inr (request ''m.py'' ''def f(:'')) sample_parse remdups ''in''
     = \<lparr>stdout = [], stderr = [JObject [(''error'', JString ''invalid syntax'')]], exit_code = 1\<rparr>
   \<and> exit_code (main (\<lambda>stdin. Inr (JArray [])) sample_parse remdups ''in'') = 1
   \<and> main (\<lambda>stdin. Inl (Exception ''JSONDecodeError'' ''invalid syntax'')) sample_parse remdups ''in''
     = main (\<lambda>stdin. Inr (request ''m.py'' ''def f(:'')) sample_parse remdups ''in''"
proof -
  let ?decode = "\<lambda>stdin::string. Inl (Exception ''JSONDecodeError'' ''Expecting value'') :: exn + json"
  let ?nofile = "\<lambda>stdin::string. Inr (JObject [(''content'', JString ''def f(): g()'')]) :: exn + json"
  let ?nocontent = "\<lambda>stdin::string. Inr (JObject [(''file'', JString ''m.py'')]) :: exn + json"
  let ?broken = "\<lambda>stdin::string. Inr (request ''m.py'' ''def f(:'') :: exn + json"
  let ?array = "\<lambda>stdin::string. Inr (JArray []) :: exn + json"
  let ?decode' = "\<lambda>stdin::string. Inl (Exception ''JSONDecodeError'' ''invalid syntax'') :: exn + json"
  note t1 = every_exception_same_outcome [where json_loads = ?decode and ast_parse = sample_parse
      and ls = remdups and stdin = "''in''" and e = "Exception ''JSONDecodeError'' ''Expecting value''"]
  then have a: "main ?decode sample_parse remdups ''in''
      = \<lparr>stdout = [], stderr = [JObject [(''error'', JString ''Expecting value'')]], exit_code = 1\<rparr>"
    by simp
  note t2 = every_exception_same_outcome [where json_loads = ?nofile and ast_parse = sample_parse
      and ls = remdups and stdin = "''in''" and e = "Exception ''KeyError'' (quoted ''file'')"
      and items = "[(''content'', JString ''def f(): g()'')]"]
  then have b: "main ?nofile sample_parse remdups ''in''
      = \<lparr>stdout = [], stderr = [JObject [(''error'', JString (quoted ''file''))]], exit_code = 1\<rparr>"
    by simp
  note t3 = every_exception_same_outcome [where json_loads = ?nocontent and ast_parse = sample_parse
      and ls = remdups and stdin = "''in''" and e = "Exception ''KeyError'' (quoted ''content'')"
      and items = "[(''file'', JString ''m.py'')]" and fv = "JString ''m.py''"]
  then have c: "main ?nocontent sample_parse remdups ''in''
      = \<lparr>stdout = [], stderr = [JObject [(''error'', JString (quoted ''content''))]], exit_code = 1\<rparr>"
    by simp
  have bad: "sample_parse (JString ''def f(:'') (JString ''m.py'')
      = Inl (Exception ''SyntaxError'' ''invalid syntax'')"
    by (simp add: sample_parse_def)
  note t4 = every_exception_same_outcome [where json_loads = ?broken and ast_parse = sample_parse
      and ls = remdups and stdin = "''in''" and e = "Exception ''SyntaxError'' ''invalid syntax''"
      and items = "[(''file'', JString ''m.py''), (''content'', JString ''def f(:'')]"
      and fv = "JString ''m.py''" and cv = "JString ''def f(:''"]
  from t4 bad have d: "main ?broken sample_parse remdups ''in''
      = \<lparr>stdout = [], stderr = [JObject [(''error'', JString ''invalid syntax'')]], exit_code = 1\<rparr>"
    by (simp add: request_def)
  note t5 = every_exception_same_outcome [where json_loads = ?array and ast_parse = sample_parse
      and ls = remdups and stdin = "''in''" and v = "JArray []"]
  then have "\<exists>msg. main_try ?array sample_parse remdups ''in'' = Inl (Exception ''TypeError'' msg)"
    by simp
  then obtain msg where m: "main_try ?array sample_parse remdups ''in'' = Inl (Exception ''TypeError'' msg)"
    by blast
  note t5' = every_exception_same_outcome [where json_loads = ?array and ast_parse = sample_parse
      and ls = remdups and stdin = "''in''" and e = "Exception ''TypeError'' msg"]
  from t5' m have e: "exit_code (main ?array sample_parse remdups ''in'') = 1"
    by simp
  note t6 = every_exception_same_outcome [where json_loads = ?decode' and ast_parse = sample_parse
      and ls = remdups and stdin = "''in''" and e = "Exception ''JSONDecodeError'' ''invalid syntax''"]
  then have "main ?decode' sample_parse remdups ''in''
      = \<lparr>stdout = [], stderr = [JObject [(''error'', JString ''invalid syntax'')]], exit_code = 1\<rparr>"
    by simp
  with d have f: "main ?decode' sample_parse remdups ''in'' = main ?broken sample_parse remdups ''in''"
    by simp
  from a b c d e f show ?thesis by blast
qed

text \<open>
  C9, as stated: call expressions in decorators and default values are in the \<^verbatim>\<open>calls\<close> of the
  definition, and so a decorator \<^verbatim>\<open>@deco\<close> adds the name \<^verbatim>\<open>deco\<close>. The example fails: the
  decorator \<^verbatim>\<open>@deco\<close> is a \<^verbatim>\<open>Name\<close> node, not a \<^verbatim>\<open>Call\<close> node, and the extractor looks at
  \<^verbatim>\<open>Call\<close> nodes only.
\<close>

theorem bare_decorator_not_a_call:
  "extract_functions remdups decorated_module ''m.py''
     = [\<lparr>name = ''f'', start_line = 2, end_line = 2, calls = []\<rparr>]"
  by (simp add: extract_functions_def walk_def decorated_module_def no_args_def make_record_def
      extract_function_calls_def)

text \<open>
  C9, amended: a call expression inside a decorator expression or inside a default value of
  a parameter (positional or keyword-only) lies in the subtree of the definition node, so
  its name is in the \<^verbatim>\<open>calls\<close> of that definition: \<^verbatim>\<open>@deco(1)\<close> adds \<^verbatim>\<open>deco\<close>. A decorator that
  is a bare name or attribute, \<^verbatim>\<open>@deco\<close> or \<^verbatim>\<open>@a.deco\<close>, holds no call and adds nothing.
\<close>

theorem decorator_and_default_calls:
  assumes "set_iteration ls"
    and "d = FunctionDef nm (arguments po ar va ko kd kw df) body decs rt l e
       \<or> d = AsyncFunctionDef nm (arguments po ar va ko kd kw df) body decs rt l e"
    and "x \<in> set decs \<or> x \<in> set df \<or> Some x \<in> set kd"
    and "c \<in> set (pre_order x)"
    and "c = Call (Name f ctx) as ks \<or> c = Call (Attribute v f ctx) as ks"
  shows "f \<in> set (calls (make_record ls d nm l e))
       \<and> extract_function_calls (Name i Load) = []
       \<and> extract_function_calls (Attribute (Name a Load) i Load) = []"
proof (intro conjI)
  let ?args = "arguments po ar va ko kd kw df"
  have "c \<in> set (pre_order d)"
  proof (cases "x \<in> set decs")
    case True
    with assms(2) have "x \<in> set (iter_child_nodes d)" by auto
    then show ?thesis using assms(4) by (rule pre_order_child)
  next
    case False
    with assms(3) have "x \<in> set df \<or> Some x \<in> set kd" by simp
    then have "x \<in> set df \<or> x \<in> set (concat (map field kd))"
      using field_member [of x kd] by blast
    then have "x \<in> set (iter_child_nodes ?args)" by (auto simp del: set_concat)
    then have "c \<in> set (pre_order ?args)" using assms(4) by (rule pre_order_child)
    moreover from assms(2) have "?args \<in> set (iter_child_nodes d)" by auto
    ultimately show ?thesis by (rule pre_order_child [rotated])
  qed
  then have "f \<in> set (extract_function_calls d)" using assms(5) by (rule call_in_subtree)
  with assms(1) show "f \<in> set (calls (make_record ls d nm l e))"
    by (simp add: calls_make_record)
next
  show "extract_function_calls (Name i Load) = []"
    by (simp add: extract_function_calls_def walk_def)
next
  show "extract_function_calls (Attribute (Name a Load) i Load) = []"
    by (simp add: extract_function_calls_def walk_def)
qed

theorem decorator_and_default_calls_witness:
  "calls (make_record remdups decorated_def ''f'' 2 (Some 2)) = [''deco'', ''dflt'']
   \<and> ''deco'' \<in> set (calls (make_record remdups decorated_def ''f'' 2 (Some 2)))
   \<and> ''dflt'' \<in> set (calls (make_record remdups decorated_def ''f'' 2 (Some 2)))"
proof -
  let ?deco = "Call (Name ''deco'' Load) [Other []] []"
  let ?dflt = "Call (Name ''dflt'' Load) [] []"
  have shape: "decorated_def = FunctionDef ''f'' (arguments [] [Other []] None [] [] None [?dflt])
        [Other []] [?deco] None 2 (Some 2)
      \<or> decorated_def = AsyncFunctionDef ''f'' (arguments [] [Other []] None [] [] None [?dflt])
        [Other []] [?deco] None 2 (Some 2)"
    by (simp add: decorated_def_def)
  have deco_place: "?deco \<in> set [?deco] \<or> ?deco \<in> set [?dflt] \<or> Some ?deco \<in> set []"
    by simp
  have dflt_place: "?dflt \<in> set [?deco] \<or> ?dflt \<in> set [?dflt] \<or> Some ?dflt \<in> set []"
    by simp
  have deco_call: "?deco = Call (Name ''deco'' Load) [Other []] []
      \<or> ?deco = Call (Attribute Load ''deco'' Load) [Other []] []"
    by simp
  have dflt_call: "?dflt = Call (Name ''dflt'' Load) [] []
      \<or> ?dflt = Call (Attribute Load ''dflt'' Load) [] []"
    by simp
  have val: "calls (make_record remdups decorated_def ''f'' 2 (Some 2)) = [''deco'', ''dflt'']"
    by (simp add: make_record_def extract_function_calls_def walk_def decorated_def_def)
  have a: "''deco'' \<in> set (calls (make_record remdups decorated_def ''f'' 2 (Some 2)))"
    by (rule decorator_and_default_calls [OF remdups_iteration shape deco_place pre_order_self
          deco_call, THEN conjunct1])
  have b: "''dflt'' \<in> set (calls (make_record remdups decorated_def ''f'' 2 (Some 2)))"
    by (rule decorator_and_default_calls [OF remdups_iteration shape dflt_place pre_order_self
          dflt_call, THEN conjunct1])
  from val a b show ?thesis by blast
qed

end
